theory Spec2Isabelle
  imports Complex_Main
begin

section \<open>The cost model of the notebook and its QUBO form\<close>

text \<open>
  The notebook \<^verbatim>\<open>Minimal-optimization-example.ipynb\<close> builds the cost function
  \<^verbatim>\<open>Sum(C[i]*X[i], (i,0,N-1)) + P*(Sum(X[i], (i,0,N-1)) - 1)**2\<close> in sympy, substitutes the
  data \<^verbatim>\<open>TestN\<close>, \<^verbatim>\<open>TestC\<close>, \<^verbatim>\<open>TestP\<close>, turns the result into a \<^verbatim>\<open>Poly\<close> in the
  variables \<^verbatim>\<open>X[0..N-1]\<close>, and reads coefficients with \<^verbatim>\<open>coeff_monomial\<close> to fill the
  input of qiskit's \<^verbatim>\<open>QuadraticProgram\<close> and the dictionary \<^verbatim>\<open>Qubo\<close> given to D-Wave's
  \<^verbatim>\<open>QBSolv\<close>.
\<close>

subsection \<open>Symbolic expressions\<close>

text \<open>
  Python exceptions that the cells can end with. \<open>GeneratorsNeeded\<close> is what
  \<^verbatim>\<open>sym.Poly\<close> raises for an empty list of generators, \<open>TypeError\<close> what \<^verbatim>\<open>int(...)\<close> raises
  on an expression that still holds a free symbol, \<open>IndexError\<close> what reading a list
  beyond its end raises. \<open>DimensionMismatch\<close> is the error the specification names; no
  cell of the notebook raises it.
\<close>

datatype error = GeneratorsNeeded | TypeError | IndexError | DimensionMismatch

text \<open>
  A monomial is the sorted list of the indices of its symbols, an index repeated as often
  as its exponent says: \<open>[i, i]\<close> is \<^verbatim>\<open>X[i]**2\<close> and \<open>[]\<close> is \<open>1\<close>. An expanded expression
  is a sum of summands; a summand is a number times a monomial in the variables
  \<^verbatim>\<open>X[i]\<close> times a monomial in the cost symbols \<^verbatim>\<open>C[k]\<close>. Summands of the same monomials
  are not merged: a coefficient is read by adding them up.

  The numbers are the rationals: the costs and the penalty are a list of numbers and a
  number that sympy keeps exactly, Python's \<^verbatim>\<open>int\<close> and sympy's \<^verbatim>\<open>Integer\<close> and
  \<^verbatim>\<open>Rational\<close>. Python's \<^verbatim>\<open>float\<close>, which rounds, is not modelled.
\<close>

type_synonym monomial = "nat list"
type_synonym summand = "rat \<times> monomial \<times> monomial"
type_synonym expr = "summand list"

definition num :: "rat \<Rightarrow> expr" where
  "num c = [(c, [], [])]"

definition X_idx :: "nat \<Rightarrow> expr" where
  "X_idx i = [(1, [i], [])]"

definition C_idx :: "nat \<Rightarrow> expr" where
  "C_idx k = [(1, [], [k])]"

definition mono_mul :: "monomial \<Rightarrow> monomial \<Rightarrow> monomial" where
  "mono_mul a b = sort (a @ b)"

fun summand_mul :: "summand \<Rightarrow> summand \<Rightarrow> summand" where
  "summand_mul (c, xm, cm) (c', xm', cm') = (c * c', mono_mul xm xm', mono_mul cm cm')"

definition expr_add :: "expr \<Rightarrow> expr \<Rightarrow> expr" where
  "expr_add p q = p @ q"

definition expr_mul :: "expr \<Rightarrow> expr \<Rightarrow> expr" where
  "expr_mul p q = concat (map (\<lambda>t. map (summand_mul t) q) p)"

primrec expr_pow :: "expr \<Rightarrow> nat \<Rightarrow> expr" where
  "expr_pow p 0 = num 1"
| "expr_pow p (Suc n) = expr_mul p (expr_pow p n)"

text \<open>\<^verbatim>\<open>sym.Sum(f(i), (i, 0, n-1)).doit()\<close>: the sum written out, empty for \<open>n = 0\<close>.\<close>

definition Sum_doit :: "(nat \<Rightarrow> expr) \<Rightarrow> nat \<Rightarrow> expr" where
  "Sum_doit f n = foldr expr_add (map f [0..<n]) []"

subsection \<open>The cost function and its instantiation\<close>

text \<open>
  The template of cell 3, a function of what is substituted for \<^verbatim>\<open>N\<close>, for the symbols
  \<^verbatim>\<open>C[k]\<close> and for \<^verbatim>\<open>P\<close>.
\<close>

definition cost_function :: "nat \<Rightarrow> (nat \<Rightarrow> expr) \<Rightarrow> expr \<Rightarrow> expr" where
  "cost_function N C P =
     expr_add (Sum_doit (\<lambda>i. expr_mul (C i) (X_idx i)) N)
              (expr_mul P (expr_pow (expr_add (Sum_doit X_idx N) (num (- 1))) 2))"

text \<open>\<^verbatim>\<open>cost_dict = {C[k]: TestC[k] for k in range(len(TestC))}\<close>\<close>

definition cost_dict :: "rat list \<Rightarrow> nat \<rightharpoonup> rat" where
  "cost_dict TestC = (\<lambda>k. if k < length TestC then Some (TestC ! k) else None)"

text \<open>\<^verbatim>\<open>.subs(cost_dict)\<close> on a symbol: a symbol that is no key of the dictionary stays.\<close>

definition subs :: "(nat \<rightharpoonup> rat) \<Rightarrow> nat \<Rightarrow> expr" where
  "subs d k = (case d k of Some c \<Rightarrow> num c | None \<Rightarrow> C_idx k)"

text \<open>
  \<^verbatim>\<open>sym.Poly(e, [X[i] for i in range(n)])\<close>: the generators are the \<open>n\<close> variables, the
  cost symbols left in \<open>e\<close> belong to the coefficients. With no generator sympy raises.
\<close>

definition Poly :: "expr \<Rightarrow> nat \<Rightarrow> error + expr" where
  "Poly e n = (if n = 0 then Inl GeneratorsNeeded else Inr e)"

text \<open>Cell 6, with \<^verbatim>\<open>num_qubits = TestN\<close> of cell 5.\<close>

definition cost_poly :: "nat \<Rightarrow> rat list \<Rightarrow> rat \<Rightarrow> error + expr" where
  "cost_poly TestN TestC TestP =
     Poly (cost_function TestN (subs (cost_dict TestC)) (num TestP)) TestN"

subsection \<open>Reading coefficients\<close>

text \<open>
  What \<^verbatim>\<open>coeff_monomial\<close> returns is a sympy expression in the cost symbols alone: the
  number \<open>Number c\<close> when every cost symbol cancels, and a symbolic sum otherwise.
\<close>

datatype coeff = Number rat | Symbolic "(rat \<times> monomial) list"

definition coeff_of :: "(rat \<times> monomial) list \<Rightarrow> monomial \<Rightarrow> rat" where
  "coeff_of e m = sum_list (map fst (filter (\<lambda>t. snd t = m) e))"

definition is_number :: "(rat \<times> monomial) list \<Rightarrow> bool" where
  "is_number e = list_all (\<lambda>t. snd t = [] \<or> coeff_of e (snd t) = 0) e"

definition sympify :: "(rat \<times> monomial) list \<Rightarrow> coeff" where
  "sympify e = (if is_number e then Number (coeff_of e []) else Symbolic e)"

fun summands :: "coeff \<Rightarrow> (rat \<times> monomial) list" where
  "summands (Number n) = [(n, [])]"
| "summands (Symbolic e) = e"

definition coeff_add :: "coeff \<Rightarrow> coeff \<Rightarrow> coeff" where
  "coeff_add a b = sympify (summands a @ summands b)"

definition coeff_monomial :: "expr \<Rightarrow> monomial \<Rightarrow> coeff" where
  "coeff_monomial p m =
     sympify (map (\<lambda>t. (fst t, snd (snd t))) (filter (\<lambda>t. fst (snd t) = m) p))"



subsection \<open>The QUBO dictionary of cell 24\<close>

text \<open>
  The dictionary comprehension, as the list of its items in insertion order. Its keys are
  pairwise different (lemma \<open>distinct_triangle\<close> below), so no item overwrites another and
  \<open>map_of\<close> reads the dictionary.
\<close>

type_synonym qubo = "((nat \<times> nat) \<times> coeff) list"

definition Qubo :: "expr \<Rightarrow> nat \<Rightarrow> qubo" where
  "Qubo p num_qubits =
     concat (map (\<lambda>i. map (\<lambda>j. ((i, j),
                 coeff_add (coeff_monomial p (mono_mul [i] [j]))
                           (if i = j then coeff_monomial p [i] else Number 0)))
               [i..<num_qubits]) [0..<num_qubits])"

text \<open>Cells 6 and 24 one after the other: an exception of the first ends the run.\<close>

definition compile_Qubo :: "nat \<Rightarrow> rat list \<Rightarrow> rat \<Rightarrow> error + qubo" where
  "compile_Qubo TestN TestC TestP =
     (case cost_poly TestN TestC TestP of Inl e \<Rightarrow> Inl e | Inr p \<Rightarrow> Inr (Qubo p TestN))"

subsection \<open>The quadratic program of cell 8\<close>





subsection \<open>Objective values\<close>

text \<open>
  Modelled from the spec: the solvers are no code of the notebook, which hands them
  \<^verbatim>\<open>Qubo\<close> and the quadratic program and prints what they return. The objective of a
  QUBO dictionary at a bit assignment \<open>x\<close> is the sum of \<open>Q[(i, j)] * x[i] * x[j]\<close>
  over its items; the objective of a quadratic program adds the linear part
  \<open>linear[i] * x[i]\<close>; the value of a polynomial at \<open>x\<close> is the sum of its summands with
  every \<^verbatim>\<open>X[i]\<close> replaced by \<open>x[i]\<close>. A value that is no number cannot be read
  (\<open>TypeError\<close>), nor can an index beyond the end of \<open>x\<close> (\<open>IndexError\<close>).
\<close>

fun to_number :: "coeff \<Rightarrow> error + rat" where
  "to_number (Number c) = Inr c"
| "to_number (Symbolic e) = Inl TypeError"

fun qubo_energy :: "qubo \<Rightarrow> rat list \<Rightarrow> error + rat" where
  "qubo_energy [] x = Inr 0"
| "qubo_energy (((i, j), v) # Q) x =
     (if i < length x \<and> j < length x then
        (case to_number v of Inl e \<Rightarrow> Inl e
         | Inr c \<Rightarrow> (case qubo_energy Q x of Inl e \<Rightarrow> Inl e
                    | Inr s \<Rightarrow> Inr (c * x ! i * x ! j + s)))
      else Inl IndexError)"


definition poly_value :: "expr \<Rightarrow> rat list \<Rightarrow> error + coeff" where
  "poly_value p x =
     (if list_all (\<lambda>t. list_all (\<lambda>i. i < length x) (fst (snd t))) p then
        Inr (sympify (map (\<lambda>t. (fst t * prod_list (map (\<lambda>i. x ! i) (fst (snd t))), snd (snd t))) p))
      else Inl IndexError)"

text \<open>Bit assignments: all zero, one variable set, two variables set.\<close>

definition zeros :: "nat \<Rightarrow> rat list" where
  "zeros N = replicate N 0"

definition one_hot :: "nat \<Rightarrow> nat \<Rightarrow> rat list" where
  "one_hot N k = (zeros N)[k := 1]"

definition two_hot :: "nat \<Rightarrow> nat \<Rightarrow> nat \<Rightarrow> rat list" where
  "two_hot N a b = (zeros N)[a := 1, b := 1]"

definition binary :: "rat list \<Rightarrow> bool" where
  "binary x = list_all (\<lambda>v. v = 0 \<or> v = 1) x"

text \<open>Strict comparison of two objective values, false when one of them is an error.\<close>

fun less_value :: "error + rat \<Rightarrow> error + rat \<Rightarrow> bool" where
  "less_value (Inr a) (Inr b) = (a < b)"
| "less_value _ _ = False"

text \<open>
  \<open>m\<close> is the least objective value of \<open>Q\<close> over the feasible assignments, those with
  exactly one of the \<open>N\<close> variables set.
\<close>

definition min_feasible :: "qubo \<Rightarrow> nat \<Rightarrow> rat \<Rightarrow> bool" where
  "min_feasible Q N m =
     (list_ex (\<lambda>k. qubo_energy Q (one_hot N k) = Inr m) [0..<N] \<and>
      list_all (\<lambda>k. qubo_energy Q (one_hot N k) = Inr m \<or>
                   less_value (Inr m) (qubo_energy Q (one_hot N k))) [0..<N])"

subsection \<open>Notions used in the proofs\<close>

text \<open>
  The integer coefficient of a monomial in the variables, summed over the summands; an
  expression without cost symbols; the two parts of the instantiated cost function written
  out; and the entries \<open>C[i] - P\<close> and \<open>2 * P\<close> of the dictionary in closed form.
\<close>

definition xcoef :: "expr \<Rightarrow> monomial \<Rightarrow> rat" where
  "xcoef p m = sum_list (map (\<lambda>t. if fst (snd t) = m then fst t else 0) p)"

definition numeric :: "expr \<Rightarrow> bool" where
  "numeric p = list_all (\<lambda>t. snd (snd t) = []) p"

definition linear_part :: "nat \<Rightarrow> rat list \<Rightarrow> expr" where
  "linear_part N TestC = map (\<lambda>i. (TestC ! i, [i], [])) [0..<N]"

definition constraint :: "nat \<Rightarrow> expr" where
  "constraint N = map (\<lambda>k. (1, [k], [])) [0..<N] @ [(- 1, [], [])]"

definition closed_form :: "nat \<Rightarrow> rat list \<Rightarrow> rat \<Rightarrow> ((nat \<times> nat) \<times> rat) list" where
  "closed_form N TestC TestP =
     concat (map (\<lambda>i. map (\<lambda>j. ((i, j), if i = j then TestC ! i - TestP else 2 * TestP))
       [i..<N]) [0..<N])"

text \<open>
  The objective of a dictionary of numbers, the dictionary with \<open>d i\<close> on the diagonal and
  \<open>q\<close> above it, and the sum of the products \<open>x[i] * x[j]\<close> over the pairs \<open>i < j\<close>.
\<close>

definition energy_sum :: "((nat \<times> nat) \<times> rat) list \<Rightarrow> rat list \<Rightarrow> rat" where
  "energy_sum Q x = sum_list (map (\<lambda>((i, j), c). c * x ! i * x ! j) Q)"

definition triangle :: "nat \<Rightarrow> (nat \<Rightarrow> rat) \<Rightarrow> rat \<Rightarrow> ((nat \<times> nat) \<times> rat) list" where
  "triangle N d q =
     concat (map (\<lambda>i. map (\<lambda>j. ((i, j), if i = j then d i else q)) [i..<N]) [0..<N])"

definition cross :: "rat list \<Rightarrow> nat \<Rightarrow> rat" where
  "cross x n = sum_list (map (\<lambda>i. sum_list (map (\<lambda>j. x ! i * x ! j) [Suc i..<n])) [0..<n])"

text \<open>
  The value of an expression without cost symbols at an assignment, and an expression whose
  variables all have an index below \<open>n\<close>.
\<close>

definition ev :: "expr \<Rightarrow> rat list \<Rightarrow> rat" where
  "ev p x = sum_list (map (\<lambda>t. fst t * prod_list (map (\<lambda>i. x ! i) (fst (snd t)))) p)"

definition in_range :: "nat \<Rightarrow> expr \<Rightarrow> bool" where
  "in_range n p = list_all (\<lambda>t. list_all (\<lambda>i. i < n) (fst (snd t))) p"

section \<open>Coefficients of the instantiated cost function\<close>

lemma xcoef_Nil [simp]: "xcoef [] m = 0"
  by (simp add: xcoef_def)

lemma xcoef_Cons [simp]:
  "xcoef ((c, xm, cm) # p) m = (if xm = m then c else 0) + xcoef p m"
  by (simp add: xcoef_def)

lemma xcoef_append [simp]: "xcoef (p @ q) m = xcoef p m + xcoef q m"
  by (simp add: xcoef_def)

lemma xcoef_concat: "xcoef (concat ps) m = sum_list (map (\<lambda>p. xcoef p m) ps)"
  by (induction ps) simp_all

lemma xcoef_map:
  "xcoef (map f ks) m = sum_list (map (\<lambda>k. if fst (snd (f k)) = m then fst (f k) else 0) ks)"
  by (simp add: xcoef_def comp_def)

lemma numeric_coeff_list:
  assumes "list_all (\<lambda>t. snd t = []) e"
  shows "sympify e = Number (sum_list (map fst e))"
proof -
  have "is_number e"
    using assms unfolding is_number_def by (induction e) (auto simp: list_all_iff)
  moreover have "filter (\<lambda>t. snd t = []) e = e"
    using assms by (simp add: list_all_iff)
  ultimately show ?thesis
    by (simp add: sympify_def coeff_of_def)
qed

lemma coeff_monomial_numeric:
  assumes "numeric p"
  shows "coeff_monomial p m = Number (xcoef p m)"
proof -
  let ?e = "map (\<lambda>t. (fst t, snd (snd t))) (filter (\<lambda>t. fst (snd t) = m) p)"
  have "list_all (\<lambda>t. snd t = []) ?e"
    using assms by (simp add: numeric_def list_all_iff)
  then have "sympify ?e = Number (sum_list (map fst ?e))"
    by (rule numeric_coeff_list)
  moreover have "sum_list (map fst ?e) = xcoef p m"
    by (simp add: xcoef_def comp_def sum_list_map_filter')
  ultimately show ?thesis
    by (simp add: coeff_monomial_def)
qed

lemma coeff_add_Number [simp]: "coeff_add (Number a) (Number b) = Number (a + b)"
  by (simp add: coeff_add_def sympify_def is_number_def coeff_of_def)

lemma sum_list_delta:
  "sum_list (map (\<lambda>k. if k = i then f k else 0) [0..<n]) = (if i < n then f i else (0::rat))"
  by (induction n) auto

lemma sum_list_zero: "sum_list (map (\<lambda>k. 0::rat) ks) = 0"
  by (induction ks) auto

lemma Sum_doit_concat: "Sum_doit f n = concat (map f [0..<n])"
  unfolding Sum_doit_def expr_add_def by (induction "map f [0..<n]" arbitrary: n) (auto simp: concat_conv_foldr)

lemma mono_mul_simps [simp]:
  "mono_mul [] [] = []" "mono_mul [] [a] = [a]" "mono_mul [a] [] = [a]"
  by (auto simp: mono_mul_def)

lemma mono_mul_pair: "mono_mul [a] [b] = (if a \<le> b then [a, b] else [b, a])"
  by (auto simp: mono_mul_def)

lemma mono_mul_pair_neq [simp]: "mono_mul [a] [b] \<noteq> [i]" "mono_mul [a] [b] \<noteq> []"
  by (auto simp: mono_mul_pair)

lemma mono_mul_pair_eq:
  "i \<le> j \<Longrightarrow> mono_mul [a] [b] = [i, j] \<longleftrightarrow> (a = i \<and> b = j) \<or> (a = j \<and> b = i)"
  by (auto simp: mono_mul_pair)

lemma mono_mul_sorted: "sorted m \<Longrightarrow> mono_mul [] m = m"
  by (simp add: mono_mul_def sorted_sort_id)

lemma Sum_X_idx: "Sum_doit X_idx N = map (\<lambda>k. (1, [k], [])) [0..<N]"
  by (induction N) (simp_all add: Sum_doit_concat X_idx_def)

lemma Sum_costs:
  "N \<le> length TestC \<Longrightarrow>
   Sum_doit (\<lambda>i. expr_mul (subs (cost_dict TestC) i) (X_idx i)) N = linear_part N TestC"
  by (induction N)
    (simp_all add: Sum_doit_concat linear_part_def X_idx_def subs_def cost_dict_def expr_mul_def num_def)

lemma constraint_eq: "expr_add (Sum_doit X_idx N) (num (- 1)) = constraint N"
  by (simp add: Sum_X_idx constraint_def expr_add_def num_def)

lemma expr_mul_one:
  assumes "list_all (\<lambda>t. sorted (fst (snd t)) \<and> sorted (snd (snd t))) p"
  shows "expr_mul p (num 1) = p"
  using assms by (induction p) (auto simp: expr_mul_def num_def mono_mul_def sorted_sort_id)

lemma constraint_sorted:
  "list_all (\<lambda>t. sorted (fst (snd t)) \<and> sorted (snd (snd t))) (constraint N)"
  by (simp add: constraint_def list_all_iff)

lemma expr_pow_2: "expr_pow p 2 = expr_mul p (expr_mul p (num 1))"
  by (simp add: numeral_2_eq_2)

lemma constraint_square:
  "expr_pow (constraint N) 2 = expr_mul (constraint N) (constraint N)"
  by (simp add: expr_pow_2 expr_mul_one constraint_sorted)

lemma cost_function_eq:
  "N \<le> length TestC \<Longrightarrow>
   cost_function N (subs (cost_dict TestC)) (num TestP) =
     linear_part N TestC @ expr_mul (num TestP) (expr_mul (constraint N) (constraint N))"
  by (simp add: cost_function_def Sum_costs constraint_eq constraint_square)
    (simp add: expr_add_def)

lemma xcoef_scale:
  assumes "list_all (\<lambda>t. sorted (fst (snd t))) q"
  shows "xcoef (expr_mul (num c) q) m = c * xcoef q m"
  using assms
  by (induction q) (auto simp: expr_mul_def num_def mono_mul_sorted algebra_simps)

lemma expr_mul_sorted: "list_all (\<lambda>t. sorted (fst (snd t))) (expr_mul p q)"
  by (auto simp: expr_mul_def list_all_iff mono_mul_def)

lemma xcoef_mul_constraint:
  "xcoef (map (summand_mul (c, xm, cm)) (constraint N)) m =
     sum_list (map (\<lambda>k. if mono_mul xm [k] = m then c else 0) [0..<N])
       + (if mono_mul xm [] = m then - c else 0)"
  by (simp add: constraint_def xcoef_map comp_def cong: if_cong)

lemma sum_list_constraint:
  "sum_list (map g (constraint N)) =
     sum_list (map (\<lambda>a. g (1, [a], [])) [0..<N]) + (g (- 1, [], []) :: rat)"
  by (simp add: constraint_def comp_def)

lemma xcoef_square:
  "xcoef (expr_mul (constraint N) (constraint N)) m =
     sum_list (map (\<lambda>a. sum_list (map (\<lambda>k. if mono_mul [a] [k] = m then 1 else 0) [0..<N])
                        + (if [a] = m then - 1 else 0)) [0..<N])
       + (sum_list (map (\<lambda>k. if [k] = m then - 1 else 0) [0..<N]) + (if [] = m then 1 else 0))"
proof -
  have "xcoef (expr_mul (constraint N) (constraint N)) m =
      sum_list (map (\<lambda>t. xcoef (map (summand_mul t) (constraint N)) m) (constraint N))"
    by (simp add: expr_mul_def xcoef_concat comp_def)
  also have "\<dots> = sum_list (map (\<lambda>a. xcoef (map (summand_mul (1, [a], [])) (constraint N)) m) [0..<N])
      + xcoef (map (summand_mul (- 1, [], [])) (constraint N)) m"
    by (rule sum_list_constraint)
  finally show ?thesis
    by (simp add: xcoef_mul_constraint)
qed

lemma pair_count:
  assumes "i \<le> j" "j < N"
  shows "sum_list (map (\<lambda>k. if mono_mul [a] [k] = [i, j] then 1 else 0) [0..<N]) =
    (if a = i then 1 else (0::rat)) + (if a = j \<and> i \<noteq> j then 1 else 0)"
proof -
  have "(if mono_mul [a] [k] = [i, j] then 1 else (0::rat)) =
      (if k = j then (if a = i then 1 else 0) else 0)
        + (if k = i then (if a = j \<and> i \<noteq> j then 1 else 0) else 0)" for k
    using assms by (auto simp: mono_mul_pair_eq)
  then show ?thesis
    using assms by (simp add: sum_list_addf sum_list_delta)
qed

lemma square_coeff_linear:
  assumes "i < N"
  shows "xcoef (expr_mul (constraint N) (constraint N)) [i] = - 2"
  using assms by (simp add: xcoef_square sum_list_delta sum_list_zero)

lemma square_coeff_pair:
  assumes "i \<le> j" "j < N"
  shows "xcoef (expr_mul (constraint N) (constraint N)) [i, j] = (if i = j then 1 else 2)"
  using assms by (simp add: xcoef_square pair_count sum_list_delta sum_list_zero sum_list_addf)

lemma square_coeff_const:
  shows "xcoef (expr_mul (constraint N) (constraint N)) [] = 1"
  by (simp add: xcoef_square sum_list_zero)

lemma linear_part_coeff:
  "xcoef (linear_part N TestC) m = sum_list (map (\<lambda>i. if [i] = m then TestC ! i else 0) [0..<N])"
  by (simp add: linear_part_def xcoef_map comp_def cong: if_cong)

lemma numeric_append: "numeric (p @ q) \<longleftrightarrow> numeric p \<and> numeric q"
  by (simp add: numeric_def)

lemma numeric_mul: "numeric p \<Longrightarrow> numeric q \<Longrightarrow> numeric (expr_mul p q)"
  by (fastforce simp: numeric_def expr_mul_def list_all_iff)

lemma numeric_simps [simp]: "numeric (num c)" "numeric (constraint N)" "numeric (linear_part N TestC)"
  by (simp_all add: numeric_def num_def constraint_def linear_part_def list_all_iff)

lemma numeric_cost_function:
  "N \<le> length TestC \<Longrightarrow> numeric (cost_function N (subs (cost_dict TestC)) (num TestP))"
  by (simp add: cost_function_eq numeric_append numeric_mul)

lemma xcoef_cost_function:
  assumes "N \<le> length TestC"
  shows "xcoef (cost_function N (subs (cost_dict TestC)) (num TestP)) m =
    xcoef (linear_part N TestC) m + TestP * xcoef (expr_mul (constraint N) (constraint N)) m"
  using assms by (simp add: cost_function_eq xcoef_scale expr_mul_sorted)

lemma coeff_linear:
  assumes "N \<le> length TestC" "i < N"
  shows "coeff_monomial (cost_function N (subs (cost_dict TestC)) (num TestP)) [i] =
    Number (TestC ! i - 2 * TestP)"
  using assms
  by (simp add: coeff_monomial_numeric numeric_cost_function xcoef_cost_function
      linear_part_coeff square_coeff_linear sum_list_delta)

lemma coeff_pair:
  assumes "N \<le> length TestC" "i \<le> j" "j < N"
  shows "coeff_monomial (cost_function N (subs (cost_dict TestC)) (num TestP)) [i, j] =
    Number (if i = j then TestP else 2 * TestP)"
  using assms
  by (simp add: coeff_monomial_numeric numeric_cost_function xcoef_cost_function
      linear_part_coeff square_coeff_pair sum_list_zero)

lemma coeff_const:
  assumes "N \<le> length TestC"
  shows "coeff_monomial (cost_function N (subs (cost_dict TestC)) (num TestP)) [] = Number TestP"
  using assms
  by (simp add: coeff_monomial_numeric numeric_cost_function xcoef_cost_function
      linear_part_coeff square_coeff_const sum_list_zero)

lemma Qubo_closed_form:
  assumes "N \<le> length TestC"
  shows "Qubo (cost_function N (subs (cost_dict TestC)) (num TestP)) N =
    map (\<lambda>(k, c). (k, Number c)) (closed_form N TestC TestP)"
  unfolding Qubo_def closed_form_def map_concat map_map comp_def
  using assms
  by (intro arg_cong[where f = concat] map_cong refl)
    (auto simp: coeff_linear coeff_pair mono_mul_pair)

lemma compile_Qubo_closed_form:
  assumes "0 < N" "N \<le> length TestC"
  shows "compile_Qubo N TestC TestP = Inr (map (\<lambda>(k, c). (k, Number c)) (closed_form N TestC TestP))"
  using assms by (simp add: compile_Qubo_def cost_poly_def Poly_def Qubo_closed_form)

lemma triangle_keys:
  "map fst (concat (map (\<lambda>i. map (\<lambda>j. ((i, j), f i j)) [i..<N]) [0..<N])) =
     concat (map (\<lambda>i. map (Pair i) [i..<N]) [0..<N])"
  by (simp add: map_concat comp_def)

lemma distinct_triangle: "distinct (concat (map (\<lambda>i. map (Pair i) [i..<N]) [0..<(n::nat)]))"
  by (induction n) (auto simp: distinct_map inj_on_def)

lemma set_triangle:
  "set (concat (map (\<lambda>i. map (\<lambda>j. ((i, j), f i j)) [i..<N]) [0..<N])) =
     {((i, j), f i j) | i j. i \<le> j \<and> j < N}"
  by (fastforce simp: image_iff)

lemma set_triangle_keys:
  "set (concat (map (\<lambda>i. map (Pair i) [i..<N]) [0..<N])) = {(i, j). i \<le> j \<and> j < N}"
  by (fastforce simp: image_iff)

lemma map_of_triangle:
  assumes "i \<le> j" "j < N"
  shows "map_of (concat (map (\<lambda>i. map (\<lambda>j. ((i, j), f i j)) [i..<N]) [0..<N])) (i, j) = Some (f i j)"
proof (rule map_of_is_SomeI)
  show "distinct (map fst (concat (map (\<lambda>i. map (\<lambda>j. ((i, j), f i j)) [i..<N]) [0..<N])))"
    by (simp only: triangle_keys distinct_triangle)
  show "((i, j), f i j) \<in> set (concat (map (\<lambda>i. map (\<lambda>j. ((i, j), f i j)) [i..<N]) [0..<N]))"
    using assms unfolding set_triangle by blast
qed

lemma closed_form_entries:
  "map (\<lambda>(k, c). (k, Number c)) (closed_form N TestC TestP) =
     concat (map (\<lambda>i. map (\<lambda>j. ((i, j), Number (if i = j then TestC ! i - TestP else 2 * TestP)))
       [i..<N]) [0..<N])"
  by (simp add: closed_form_def map_concat comp_def)

section \<open>Objective values of the dictionary\<close>

lemma sum_list_concat_rat: "sum_list (concat xss) = sum_list (map sum_list xss)" for xss :: "rat list list"
  by (induction xss) simp_all

lemma closed_form_triangle: "closed_form N TestC TestP = triangle N (\<lambda>i. TestC ! i - TestP) (2 * TestP)"
  by (simp add: closed_form_def triangle_def)

lemma qubo_energy_Number:
  assumes "list_all (\<lambda>((i, j), c). i < length x \<and> j < length x) Q"
  shows "qubo_energy (map (\<lambda>(k, c). (k, Number c)) Q) x = Inr (energy_sum Q x)"
  using assms by (induction Q) (auto simp: energy_sum_def)

lemma triangle_in_range:
  "N \<le> length x \<Longrightarrow> list_all (\<lambda>((i, j), c). i < length x \<and> j < length x) (triangle N d q)"
  by (auto simp: triangle_def list_all_iff)

lemma energy_sum_row:
  fixes x :: "rat list"
  assumes "i < N"
  shows "sum_list (map (\<lambda>((i, j), c). c * x ! i * x ! j)
           (map (\<lambda>j. ((i, j), if i = j then d i else q)) [i..<N])) =
         d i * x ! i * x ! i + q * sum_list (map (\<lambda>j. x ! i * x ! j) [Suc i..<N])"
proof -
  have rest: "map (\<lambda>j. (if i = j then d i else q) * x ! i * x ! j) [Suc i..<N] =
      map (\<lambda>j. q * (x ! i * x ! j)) [Suc i..<N]"
    by (rule map_cong) (auto simp: algebra_simps)
  have "sum_list (map (\<lambda>((i, j), c). c * x ! i * x ! j)
           (map (\<lambda>j. ((i, j), if i = j then d i else q)) [i..<N])) =
      sum_list (map (\<lambda>j. (if i = j then d i else q) * x ! i * x ! j) (i # [Suc i..<N]))"
    using assms by (simp add: comp_def upt_conv_Cons)
  also have "\<dots> = d i * x ! i * x ! i
      + sum_list (map (\<lambda>j. (if i = j then d i else q) * x ! i * x ! j) [Suc i..<N])"
    by simp
  also have "\<dots> = d i * x ! i * x ! i + sum_list (map (\<lambda>j. q * (x ! i * x ! j)) [Suc i..<N])"
    by (simp only: rest)
  finally show ?thesis
    by (simp only: sum_list_const_mult)
qed

lemma energy_sum_triangle:
  "energy_sum (triangle N d q) x =
     sum_list (map (\<lambda>i. d i * x ! i * x ! i) [0..<N]) + q * cross x N"
proof -
  have "energy_sum (triangle N d q) x =
      sum_list (map (\<lambda>i. sum_list (map (\<lambda>((i, j), c). c * x ! i * x ! j)
           (map (\<lambda>j. ((i, j), if i = j then d i else q)) [i..<N]))) [0..<N])"
    by (simp add: energy_sum_def triangle_def map_concat sum_list_concat_rat comp_def)
  also have "\<dots> = sum_list (map (\<lambda>i. d i * x ! i * x ! i
      + q * sum_list (map (\<lambda>j. x ! i * x ! j) [Suc i..<N])) [0..<N])"
    by (rule arg_cong[where f = sum_list], rule map_cong) (simp_all only: energy_sum_row set_upt atLeastLessThan_iff)
  finally show ?thesis
    by (simp add: sum_list_addf cross_def sum_list_const_mult)
qed

lemma cross_Suc: "cross x (Suc n) = cross x n + sum_list (map (\<lambda>i. x ! i) [0..<n]) * x ! n"
proof -
  have rows: "map (\<lambda>i. sum_list (map (\<lambda>j. x ! i * x ! j) [Suc i..<Suc n])) [0..<n] =
      map (\<lambda>i. sum_list (map (\<lambda>j. x ! i * x ! j) [Suc i..<n]) + x ! i * x ! n) [0..<n]"
    by (rule map_cong) auto
  have "cross x (Suc n) =
      sum_list (map (\<lambda>i. sum_list (map (\<lambda>j. x ! i * x ! j) [Suc i..<Suc n])) [0..<n])"
    unfolding cross_def by simp
  also have "\<dots> =
      sum_list (map (\<lambda>i. sum_list (map (\<lambda>j. x ! i * x ! j) [Suc i..<n]) + x ! i * x ! n) [0..<n])"
    by (simp only: rows)
  finally show ?thesis
    by (simp only: sum_list_addf sum_list_mult_const cross_def)
qed

lemma square_of_sum:
  "(sum_list (map (\<lambda>i. x ! i) [0..<n]))\<^sup>2 =
     sum_list (map (\<lambda>i. x ! i * x ! i) [0..<n]) + 2 * cross x n"
proof (induction n)
  case 0
  show ?case by (simp add: cross_def)
next
  case (Suc n)
  then show ?case
    by (simp add: cross_Suc power2_eq_square algebra_simps)
qed

lemma binary_square:
  assumes "binary x" "n \<le> length x"
  shows "map (\<lambda>i. f i * x ! i * x ! i) [0..<n] = map (\<lambda>i. f i * x ! i) [0..<n]"
proof (rule map_cong)
  fix i assume "i \<in> set [0..<n]"
  then have "x ! i \<in> set x" using assms by simp
  then have "x ! i = 0 \<or> x ! i = 1" using assms by (auto simp: binary_def list_all_iff)
  then show "f i * x ! i * x ! i = f i * x ! i" by auto
qed simp

lemma binary_square_sum:
  assumes "binary x" "n \<le> length x"
  shows "sum_list (map (\<lambda>i. x ! i * x ! i) [0..<n]) = sum_list (map (\<lambda>i. x ! i) [0..<n])"
proof -
  have "map (\<lambda>i. 1 * x ! i * x ! i) [0..<n] = map (\<lambda>i. 1 * x ! i) [0..<n]"
    using assms by (rule binary_square)
  then have "map (\<lambda>i. x ! i * x ! i) [0..<n] = map (\<lambda>i. x ! i) [0..<n]"
    by (simp only: mult_1)
  then show ?thesis by (simp only:)
qed

lemma energy_binary:
  assumes "binary x" "N \<le> length x"
  shows "energy_sum (closed_form N TestC TestP) x =
    sum_list (map (\<lambda>i. TestC ! i * x ! i) [0..<N])
      + TestP * (sum_list (map (\<lambda>i. x ! i) [0..<N]) * (sum_list (map (\<lambda>i. x ! i) [0..<N]) - 2))"
proof -
  let ?s = "sum_list (map (\<lambda>i. x ! i) [0..<N])"
  have sq: "map (\<lambda>i. f i * x ! i * x ! i) [0..<N] = map (\<lambda>i. f i * x ! i) [0..<N]" for f
    using assms by (rule binary_square)
  have "sum_list (map (\<lambda>i. x ! i * x ! i) [0..<N]) = ?s"
    using assms by (rule binary_square_sum)
  then have cr: "2 * cross x N = ?s * ?s - ?s"
    using square_of_sum [of x N] by (simp add: power2_eq_square)
  have "sum_list (map (\<lambda>i. (TestC ! i - TestP) * x ! i) [0..<N]) =
      sum_list (map (\<lambda>i. TestC ! i * x ! i) [0..<N]) - TestP * ?s"
    by (simp add: left_diff_distrib sum_list_subtractf sum_list_const_mult)
  then have "energy_sum (closed_form N TestC TestP) x =
      sum_list (map (\<lambda>i. TestC ! i * x ! i) [0..<N]) - TestP * ?s + TestP * (2 * cross x N)"
    by (simp add: closed_form_triangle energy_sum_triangle sq)
  then show ?thesis
    by (simp add: cr algebra_simps)
qed

lemma Qubo_energy:
  assumes "N \<le> length TestC" "N \<le> length x"
  shows "qubo_energy (Qubo (cost_function N (subs (cost_dict TestC)) (num TestP)) N) x =
    Inr (energy_sum (closed_form N TestC TestP) x)"
  using assms
  by (simp add: Qubo_closed_form qubo_energy_Number closed_form_triangle triangle_in_range)

lemma compile_Qubo_eq:
  "0 < N \<Longrightarrow> compile_Qubo N TestC TestP =
     Inr (Qubo (cost_function N (subs (cost_dict TestC)) (num TestP)) N)"
  by (simp add: compile_Qubo_def cost_poly_def Poly_def)

lemma compile_Qubo_energy:
  assumes "0 < N" "N \<le> length TestC" "N \<le> length x"
  shows "\<exists>Q. compile_Qubo N TestC TestP = Inr Q \<and>
    qubo_energy Q x = Inr (energy_sum (closed_form N TestC TestP) x)"
  using assms by (simp add: compile_Qubo_eq Qubo_energy)

subsection \<open>Assignments with no, one and two variables set\<close>

lemma length_vectors [simp]:
  "length (zeros N) = N" "length (one_hot N k) = N" "length (two_hot N a b) = N"
  by (simp_all add: zeros_def one_hot_def two_hot_def)

lemma binary_vectors [simp]: "binary (zeros N)" "binary (one_hot N k)" "binary (two_hot N a b)"
  by (auto simp: binary_def zeros_def one_hot_def two_hot_def list_all_iff dest!: set_update_subset_insert[THEN subsetD])

lemma sum_vector_cong:
  assumes "\<And>i. i < N \<Longrightarrow> f i = g i"
  shows "sum_list (map f [0..<N]) = (sum_list (map g [0..<N]) :: rat)"
  using assms by (intro arg_cong[where f = sum_list] map_cong) auto

lemma sums_zeros:
  "sum_list (map (\<lambda>i. f i * zeros N ! i) [0..<N]) = 0"
proof -
  have "sum_list (map (\<lambda>i. f i * zeros N ! i) [0..<N]) = sum_list (map (\<lambda>i. 0) [0..<N])"
    by (rule sum_vector_cong) (simp add: zeros_def)
  then show ?thesis by (simp add: sum_list_zero)
qed

lemma sums_one_hot:
  assumes "k < N"
  shows "sum_list (map (\<lambda>i. f i * one_hot N k ! i) [0..<N]) = f k"
proof -
  have "sum_list (map (\<lambda>i. f i * one_hot N k ! i) [0..<N]) =
      sum_list (map (\<lambda>i. if i = k then f i else 0) [0..<N])"
    by (rule sum_vector_cong) (simp add: zeros_def one_hot_def)
  then show ?thesis using assms by (simp add: sum_list_delta)
qed

lemma sums_two_hot:
  assumes "a < b" "b < N"
  shows "sum_list (map (\<lambda>i. f i * two_hot N a b ! i) [0..<N]) = f a + f b"
proof -
  have "sum_list (map (\<lambda>i. f i * two_hot N a b ! i) [0..<N]) =
      sum_list (map (\<lambda>i. (if i = a then f i else 0) + (if i = b then f i else 0)) [0..<N])"
    using assms by (intro sum_vector_cong) (auto simp: zeros_def two_hot_def nth_list_update)
  then show ?thesis using assms by (simp add: sum_list_addf sum_list_delta)
qed

lemma energy_zeros: "energy_sum (closed_form N TestC TestP) (zeros N) = 0"
  using sums_zeros [of "\<lambda>i. 1" N] by (simp add: energy_binary sums_zeros)

lemma energy_one_hot:
  "k < N \<Longrightarrow> energy_sum (closed_form N TestC TestP) (one_hot N k) = TestC ! k - TestP"
  using sums_one_hot [of k N "\<lambda>i. 1"] by (simp add: energy_binary sums_one_hot)

lemma energy_two_hot:
  "a < b \<Longrightarrow> b < N \<Longrightarrow>
   energy_sum (closed_form N TestC TestP) (two_hot N a b) = TestC ! a + TestC ! b"
  using sums_two_hot [of a b N "\<lambda>i. 1"] by (simp add: energy_binary sums_two_hot)

subsection \<open>The number of items\<close>

lemma triangle_length_aux:
  "n \<le> N \<Longrightarrow> 2 * sum_list (map (\<lambda>i. N - i) [0..<n]) + n * n = 2 * n * N + n"
  by (induction n) (auto simp: algebra_simps)

lemma triangle_length:
  "length (concat (map (\<lambda>i. map (f i) [i..<N]) [0..<N])) = N + N * (N - 1) div 2"
proof -
  have len: "length (concat (map (\<lambda>i. map (f i) [i..<N]) [0..<N])) = sum_list (map (\<lambda>i. N - i) [0..<N])"
    by (simp add: length_concat comp_def)
  have "2 * sum_list (map (\<lambda>i. N - i) [0..<N]) = 2 * N + N * (N - 1)"
    using triangle_length_aux [of N N] by (cases N) (auto simp: algebra_simps)
  then have "sum_list (map (\<lambda>i. N - i) [0..<N]) = (2 * N + N * (N - 1)) div 2"
    by linarith
  then show ?thesis
    using len by simp
qed

subsection \<open>The data of the notebook\<close>

lemma upt_5: "[0..<5] = [0, 1, 2, 3, 4]"
  by (simp add: upt_rec)

lemma length_5:
  assumes "length x = 5"
  obtains a b c d e where "x = [a, b, c, d, e]"
  using assms by (auto simp: length_Suc_conv eval_nat_numeral)

lemma instance_energy:
  assumes "binary [a, b, c, d, e]"
  shows "energy_sum (closed_form 5 [4, 3, 7, 2, 9] 50) [a, b, c, d, e] =
    4 * a + 3 * b + 7 * c + 2 * d + 9 * e + 50 * ((a + b + c + d + e) * (a + b + c + d + e - 2))"
  using assms by (simp add: energy_binary upt_5 add.assoc)

lemma instance_minimum:
  assumes "binary [a, b, c, d, e]" "[a, b, c, d, e] \<noteq> [0, 0, 0, 1, 0]"
  shows "- 48 < 4 * a + 3 * b + 7 * c + 2 * d + 9 * e + 50 * ((a + b + c + d + e) * (a + b + c + d + e - 2))"
  using assms unfolding binary_def by auto

subsection \<open>The least feasible value\<close>

lemma member_le_sum_list_rat:
  fixes cs :: "rat list"
  assumes "list_all (\<lambda>c. 0 \<le> c) cs" "c \<in> set cs"
  shows "c \<le> sum_list cs"
  using assms
proof (induction cs)
  case Nil
  then show ?case by simp
next
  case (Cons a cs)
  have "0 \<le> sum_list cs"
    using Cons.prems(1) by (auto intro: sum_list_nonneg simp: list_all_iff)
  then show ?case
    using Cons by auto
qed

lemma min_feasible_closed:
  assumes "0 < N" "length TestC = N"
  shows "min_feasible (Qubo (cost_function N (subs (cost_dict TestC)) (num TestP)) N) N
    (Min (set TestC) - TestP)"
proof -
  let ?Q = "Qubo (cost_function N (subs (cost_dict TestC)) (num TestP)) N"
  have val: "qubo_energy ?Q (one_hot N k) = Inr (TestC ! k - TestP)" if "k < N" for k
    using that assms by (simp add: Qubo_energy energy_one_hot)
  have "TestC \<noteq> []"
    using assms by auto
  then have "Min (set TestC) \<in> set TestC"
    by (intro Min_in) simp_all
  then obtain k where k: "k < N" "TestC ! k = Min (set TestC)"
    using assms by (auto simp: in_set_conv_nth)
  then have "list_ex (\<lambda>k. qubo_energy ?Q (one_hot N k) = Inr (Min (set TestC) - TestP)) [0..<N]"
    using val [of k] by (auto simp: list_ex_iff)
  moreover have "qubo_energy ?Q (one_hot N j) = Inr (Min (set TestC) - TestP) \<or>
      less_value (Inr (Min (set TestC) - TestP)) (qubo_energy ?Q (one_hot N j))" if "j < N" for j
  proof -
    have "Min (set TestC) \<le> TestC ! j"
      using that assms by (intro Min_le) simp_all
    then show ?thesis
      using val [OF that] by auto
  qed
  ultimately show ?thesis
    by (simp add: min_feasible_def list_all_iff)
qed

section \<open>The value of the cost polynomial\<close>

lemma prod_list_insort:
  "prod_list (map f (insort a xs)) = f a * prod_list (map f xs)" for f :: "nat \<Rightarrow> rat"
  by (induction xs) (auto simp: algebra_simps)

lemma prod_list_sort: "prod_list (map f (sort xs)) = prod_list (map f xs)" for f :: "nat \<Rightarrow> rat"
  by (induction xs) (simp_all add: prod_list_insort)

lemma prod_list_mono_mul:
  "prod_list (map f (mono_mul a b)) = prod_list (map f a) * prod_list (map f b)"
  for f :: "nat \<Rightarrow> rat"
  by (simp add: mono_mul_def prod_list_sort)

lemma ev_simps [simp]:
  "ev [] x = 0" "ev (t # p) x = fst t * prod_list (map (\<lambda>i. x ! i) (fst (snd t))) + ev p x"
  "ev (p @ q) x = ev p x + ev q x"
  by (simp_all add: ev_def)

lemma ev_summand_mul:
  "ev (map (summand_mul t) q) x = fst t * prod_list (map (\<lambda>i. x ! i) (fst (snd t))) * ev q x"
proof (induction q)
  case Nil
  show ?case by simp
next
  case (Cons u q)
  obtain c xm cm where t: "t = (c, xm, cm)" by (cases t)
  obtain c' xm' cm' where u: "u = (c', xm', cm')" by (cases u)
  show ?case
    using Cons by (simp add: t u prod_list_mono_mul algebra_simps)
qed

lemma ev_mul: "ev (expr_mul p q) x = ev p x * ev q x"
proof (induction p)
  case Nil
  show ?case by (simp add: expr_mul_def)
next
  case (Cons t p)
  have "expr_mul (t # p) q = map (summand_mul t) q @ expr_mul p q"
    by (simp add: expr_mul_def)
  then show ?case
    using Cons by (simp add: ev_summand_mul algebra_simps)
qed

lemma ev_num: "ev (num c) x = c"
  by (simp add: num_def)

lemma ev_linear_part:
  "ev (linear_part N TestC) x = sum_list (map (\<lambda>i. TestC ! i * x ! i) [0..<N])"
  by (simp add: ev_def linear_part_def comp_def)

lemma ev_constraint: "ev (constraint N) x = sum_list (map (\<lambda>i. x ! i) [0..<N]) - 1"
  by (simp add: ev_def constraint_def comp_def)

lemma ev_cost_function:
  assumes "N \<le> length TestC"
  shows "ev (cost_function N (subs (cost_dict TestC)) (num TestP)) x =
    sum_list (map (\<lambda>i. TestC ! i * x ! i) [0..<N])
      + TestP * ((sum_list (map (\<lambda>i. x ! i) [0..<N]) - 1) * (sum_list (map (\<lambda>i. x ! i) [0..<N]) - 1))"
  using assms by (simp add: cost_function_eq ev_mul ev_num ev_linear_part ev_constraint)

lemma in_range_append: "in_range n (p @ q) \<longleftrightarrow> in_range n p \<and> in_range n q"
  by (simp add: in_range_def)

lemma in_range_mul: "in_range n p \<Longrightarrow> in_range n q \<Longrightarrow> in_range n (expr_mul p q)"
  by (fastforce simp: in_range_def expr_mul_def list_all_iff mono_mul_def)

lemma in_range_simps [simp]:
  "in_range n (num c)" "in_range N (constraint N)" "in_range N (linear_part N TestC)"
  by (simp_all add: in_range_def num_def constraint_def linear_part_def list_all_iff)

lemma in_range_cost_function:
  "N \<le> length TestC \<Longrightarrow> in_range N (cost_function N (subs (cost_dict TestC)) (num TestP))"
  by (simp add: cost_function_eq in_range_append in_range_mul)

lemma poly_value_numeric:
  assumes "numeric p" "in_range (length x) p"
  shows "poly_value p x = Inr (Number (ev p x))"
proof -
  let ?e = "map (\<lambda>t. (fst t * prod_list (map (\<lambda>i. x ! i) (fst (snd t))), snd (snd t))) p"
  have "list_all (\<lambda>t. snd t = []) ?e"
    using assms(1) by (simp add: numeric_def list_all_iff)
  then have "sympify ?e = Number (sum_list (map fst ?e))"
    by (rule numeric_coeff_list)
  moreover have "sum_list (map fst ?e) = ev p x"
    by (simp add: ev_def comp_def)
  ultimately show ?thesis
    using assms(2) by (simp add: poly_value_def in_range_def)
qed

section \<open>The quadratic program\<close>









section \<open>The claims\<close>

text \<open>
  Claim C1. For every \<open>N \<ge> 1\<close>, every cost vector \<open>C\<close> of length \<open>N\<close> and every penalty
  \<open>P\<close>, the run of cells 6 and 24 succeeds and the dictionary \<open>Qubo\<close> holds the number
  \<open>C[i] - P\<close> under the key \<open>(i, i)\<close>, for every index \<open>i < N\<close>.
\<close>

theorem Qubo_diagonal:
  assumes "1 \<le> N" "length C = N" "i < N"
  shows "\<exists>Q. compile_Qubo N C P = Inr Q \<and> map_of Q (i, i) = Some (Number (C ! i - P))"
  using assms
  by (simp add: compile_Qubo_closed_form closed_form_entries map_of_triangle)

theorem Qubo_diagonal_witness:
  "(1::nat) \<le> 5 \<and> length [4, 3, 7, 2, 9 :: rat] = 5 \<and> (3::nat) < 5 \<and>
   (\<exists>Q. compile_Qubo 5 [4, 3, 7, 2, 9] 50 = Inr Q \<and> map_of Q (3, 3) = Some (Number (- 48)))"
  using Qubo_diagonal [of 5 "[4, 3, 7, 2, 9]" 3 50] by simp

text \<open>
  Claim C2, as the notebook has it. The polynomial of cell 6 is not reduced by
  \<open>X[i]\<^sup>2 = X[i]\<close>: it holds \<open>X[i]\<^sup>2\<close> with the coefficient \<open>P\<close>, and the coefficient of the
  monomial \<open>X[i]\<close> is \<open>C[i] - 2 P\<close>; the two add up to \<open>C[i] - P\<close> when cell 24 folds
  them. The claim as stated (coefficient \<open>C[i] - P\<close>, no
  monomial \<open>X[i]\<^sup>2\<close>) fails on the data of the notebook, where the coefficient of \<open>X[0]\<close>
  is \<open>-96\<close> and that of \<open>X[0]\<^sup>2\<close> is \<open>50\<close>.
\<close>

theorem cost_poly_unreduced:
  assumes "1 \<le> N" "length C = N" "i < N"
  shows "\<exists>p. cost_poly N C P = Inr p \<and>
    coeff_monomial p [i] = Number (C ! i - 2 * P) \<and>
    coeff_monomial p (mono_mul [i] [i]) = Number P \<and>
    coeff_add (coeff_monomial p (mono_mul [i] [i])) (coeff_monomial p [i]) = Number (C ! i - P)"
  using assms by (simp add: cost_poly_def Poly_def coeff_linear coeff_pair mono_mul_pair)

theorem cost_poly_unreduced_witness:
  "(1::nat) \<le> 5 \<and> length [4, 3, 7, 2, 9 :: rat] = 5 \<and> (0::nat) < 5 \<and>
   (\<exists>p. cost_poly 5 [4, 3, 7, 2, 9] 50 = Inr p \<and>
     coeff_monomial p [0] = Number (- 96) \<and> coeff_monomial p (mono_mul [0] [0]) = Number 50 \<and>
     coeff_add (coeff_monomial p (mono_mul [0] [0])) (coeff_monomial p [0]) = Number (- 46))"
  using cost_poly_unreduced [of 5 "[4, 3, 7, 2, 9]" 0 50] by simp

theorem cost_poly_reduced_counterexample:
  "cost_poly 5 [4, 3, 7, 2, 9] 50 = Inr (cost_function 5 (subs (cost_dict [4, 3, 7, 2, 9])) (num 50)) \<and>
   coeff_monomial (cost_function 5 (subs (cost_dict [4, 3, 7, 2, 9])) (num 50)) [0] \<noteq> Number (4 - 50) \<and>
   coeff_monomial (cost_function 5 (subs (cost_dict [4, 3, 7, 2, 9])) (num 50)) (mono_mul [0] [0]) = Number 50"
  by (simp add: cost_poly_def Poly_def coeff_linear coeff_pair mono_mul_pair)

text \<open>
  Claim C3. For every \<open>N \<ge> 1\<close>, every cost vector of length \<open>N\<close>, every penalty \<open>P\<close> and
  all indices \<open>i < j < N\<close>, the dictionary \<open>Qubo\<close> holds the number \<open>2 * P\<close> under the key
  \<open>(i, j)\<close>.
\<close>

theorem Qubo_off_diagonal:
  assumes "1 \<le> N" "length C = N" "i < j" "j < N"
  shows "\<exists>Q. compile_Qubo N C P = Inr Q \<and> map_of Q (i, j) = Some (Number (2 * P))"
  using assms
  by (simp add: compile_Qubo_closed_form closed_form_entries map_of_triangle)

theorem Qubo_off_diagonal_witness:
  "(1::nat) \<le> 5 \<and> length [4, 3, 7, 2, 9 :: rat] = 5 \<and> (1::nat) < 3 \<and> (3::nat) < 5 \<and>
   (\<exists>Q. compile_Qubo 5 [4, 3, 7, 2, 9] 50 = Inr Q \<and> map_of Q (1, 3) = Some (Number 100))"
  using Qubo_off_diagonal [of 5 "[4, 3, 7, 2, 9]" 1 3 50] by simp

text \<open>
  Claim C4, as the notebook has it. The objective of the dictionary \<open>Qubo\<close> at the assignment
  with \<open>X[k] = 1\<close> alone is \<open>C[k] - P\<close>: the constant \<open>P\<close> of the cost polynomial is no item
  of the dictionary. The claim as stated (the value is \<open>C[k]\<close>) fails on the data of the
  notebook at \<open>k = 3\<close>, where the value is \<open>-48\<close>, the \<^verbatim>\<open>fval\<close> that the notebook prints.
\<close>

theorem one_hot_energy:
  assumes "1 \<le> N" "length C = N" "k < N"
  shows "\<exists>Q. compile_Qubo N C P = Inr Q \<and> qubo_energy Q (one_hot N k) = Inr (C ! k - P)"
  using assms compile_Qubo_energy [of N C "one_hot N k" P] by (simp add: energy_one_hot)

theorem one_hot_energy_witness:
  "(1::nat) \<le> 5 \<and> length [4, 3, 7, 2, 9 :: rat] = 5 \<and> (3::nat) < 5 \<and>
   (\<exists>Q. compile_Qubo 5 [4, 3, 7, 2, 9] 50 = Inr Q \<and> qubo_energy Q (one_hot 5 3) = Inr (- 48))"
  using one_hot_energy [of 5 "[4, 3, 7, 2, 9]" 3 50] by simp

theorem one_hot_energy_counterexample:
  "compile_Qubo 5 [4, 3, 7, 2, 9] 50 =
     Inr (Qubo (cost_function 5 (subs (cost_dict [4, 3, 7, 2, 9])) (num 50)) 5) \<and>
   qubo_energy (Qubo (cost_function 5 (subs (cost_dict [4, 3, 7, 2, 9])) (num 50)) 5) (one_hot 5 3)
     = Inr (- 48) \<and>
   qubo_energy (Qubo (cost_function 5 (subs (cost_dict [4, 3, 7, 2, 9])) (num 50)) 5) (one_hot 5 3)
     \<noteq> Inr ([4, 3, 7, 2, 9] ! 3)"
  by (simp add: compile_Qubo_eq Qubo_energy energy_one_hot)

text \<open>
  Claim C5. For the data of the notebook, \<open>N = 5\<close>, \<open>C = [4, 3, 7, 2, 9]\<close> and \<open>P = 50\<close>,
  the assignment with \<open>X[3] = 1\<close> alone has a strictly smaller objective under the
  dictionary \<open>Qubo\<close> than every other assignment of zeros and ones to the five variables.
\<close>

theorem unique_minimizer:
  "\<exists>Q. compile_Qubo 5 [4, 3, 7, 2, 9] 50 = Inr Q \<and>
     (\<forall>x. length x = 5 \<and> binary x \<and> x \<noteq> one_hot 5 3 \<longrightarrow>
        less_value (qubo_energy Q (one_hot 5 3)) (qubo_energy Q x))"
proof -
  let ?Q = "Qubo (cost_function 5 (subs (cost_dict [4, 3, 7, 2, 9])) (num 50)) 5"
  have "less_value (qubo_energy ?Q (one_hot 5 3)) (qubo_energy ?Q x)"
    if x: "length x = 5" "binary x" "x \<noteq> one_hot 5 3" for x
  proof -
    obtain a b c d e where abc: "x = [a, b, c, d, e]"
      using x(1) by (rule length_5)
    have hot: "one_hot 5 3 = [0, 0, 0, 1, 0]"
      by (simp add: one_hot_def zeros_def eval_nat_numeral)
    have "qubo_energy ?Q (one_hot 5 3) = Inr (- 48)"
      by (simp add: Qubo_energy energy_one_hot)
    moreover have "qubo_energy ?Q x = Inr (energy_sum (closed_form 5 [4, 3, 7, 2, 9] 50) x)"
      using x(1) by (simp add: Qubo_energy)
    moreover have "- 48 < energy_sum (closed_form 5 [4, 3, 7, 2, 9] 50) x"
    proof -
      have bin: "binary [a, b, c, d, e]" and other: "[a, b, c, d, e] \<noteq> [0, 0, 0, 1, 0]"
        using x(2,3) unfolding abc hot by blast+
      show ?thesis
        unfolding abc instance_energy [OF bin] using bin other by (rule instance_minimum)
    qed
    ultimately show ?thesis by simp
  qed
  then show ?thesis
    by (simp add: compile_Qubo_eq)
qed

theorem unique_minimizer_witness:
  "\<exists>Q. compile_Qubo 5 [4, 3, 7, 2, 9] 50 = Inr Q \<and>
     less_value (qubo_energy Q (one_hot 5 3)) (qubo_energy Q [0, 1, 0, 1, 0])"
proof -
  obtain Q where Q: "compile_Qubo 5 [4, 3, 7, 2, 9] 50 = Inr Q"
    and least: "\<And>x. length x = 5 \<and> binary x \<and> x \<noteq> one_hot 5 3 \<Longrightarrow>
        less_value (qubo_energy Q (one_hot 5 3)) (qubo_energy Q x)"
    using unique_minimizer by blast
  have "less_value (qubo_energy Q (one_hot 5 3)) (qubo_energy Q [0, 1, 0, 1, 0])"
    by (rule least) (simp add: binary_def one_hot_def zeros_def eval_nat_numeral)
  with Q show ?thesis by blast
qed

text \<open>
  Claim C6, as the notebook has it. For every \<open>N \<ge> 1\<close>, every cost vector of length \<open>N\<close>
  whose entries are not negative, and every penalty \<open>P\<close> above the sum of the costs, the
  objective of the dictionary \<open>Qubo\<close> at the all-zero assignment and at every assignment
  with exactly two variables set is strictly above the least objective over the
  assignments with exactly one variable set. Without the restriction to costs that are not
  negative the claim fails: for \<open>C = [-3, -3]\<close> and \<open>P = 1\<close> the least feasible value is
  \<open>-4\<close> and the value with both variables set is \<open>-6\<close>.
\<close>

theorem penalty_dominates:
  assumes "1 \<le> N" "length C = N" "list_all (\<lambda>c. 0 \<le> c) C" "sum_list C < P"
  shows "\<exists>Q m. compile_Qubo N C P = Inr Q \<and> min_feasible Q N m \<and>
    less_value (Inr m) (qubo_energy Q (zeros N)) \<and>
    (\<forall>a b. a < b \<and> b < N \<longrightarrow> less_value (Inr m) (qubo_energy Q (two_hot N a b)))"
proof -
  let ?Q = "Qubo (cost_function N (subs (cost_dict C)) (num P)) N"
  let ?m = "Min (set C) - P"
  have "C \<noteq> []"
    using assms by auto
  then have "Min (set C) \<in> set C"
    by (intro Min_in) simp_all
  then have "Min (set C) \<le> sum_list C"
    using assms(3) by (rule member_le_sum_list_rat[rotated])
  then have neg: "?m < 0"
    using assms(4) by simp
  have "compile_Qubo N C P = Inr ?Q"
    using assms by (simp add: compile_Qubo_eq)
  moreover have "min_feasible ?Q N ?m"
    using assms by (intro min_feasible_closed) simp_all
  moreover have "less_value (Inr ?m) (qubo_energy ?Q (zeros N))"
    using assms neg by (simp add: Qubo_energy energy_zeros)
  moreover have "less_value (Inr ?m) (qubo_energy ?Q (two_hot N a b))" if "a < b" "b < N" for a b
  proof -
    have "0 \<le> C ! a" "0 \<le> C ! b"
      using that assms by (auto simp: list_all_length)
    then show ?thesis
      using that assms neg by (simp add: Qubo_energy energy_two_hot)
  qed
  ultimately show ?thesis
    by blast
qed

theorem penalty_dominates_witness:
  "(1::nat) \<le> 5 \<and> length [4, 3, 7, 2, 9 :: rat] = 5 \<and> list_all (\<lambda>c. 0 \<le> c) [4, 3, 7, 2, 9 :: rat] \<and>
   sum_list [4, 3, 7, 2, 9] < (50 :: rat) \<and>
   (\<exists>Q m. compile_Qubo 5 [4, 3, 7, 2, 9] 50 = Inr Q \<and> min_feasible Q 5 m \<and>
     less_value (Inr m) (qubo_energy Q (zeros 5)) \<and>
     less_value (Inr m) (qubo_energy Q (two_hot 5 1 3)))"
proof -
  have "\<exists>Q m. compile_Qubo 5 [4, 3, 7, 2, 9] 50 = Inr Q \<and> min_feasible Q 5 m \<and>
    less_value (Inr m) (qubo_energy Q (zeros 5)) \<and>
    (\<forall>a b. a < b \<and> b < 5 \<longrightarrow> less_value (Inr m) (qubo_energy Q (two_hot 5 a b)))"
    by (rule penalty_dominates) simp_all
  then obtain Q m where "compile_Qubo 5 [4, 3, 7, 2, 9] 50 = Inr Q" "min_feasible Q 5 m"
    "less_value (Inr m) (qubo_energy Q (zeros 5))"
    "\<And>a b. a < b \<and> b < 5 \<Longrightarrow> less_value (Inr m) (qubo_energy Q (two_hot 5 a b))"
    by blast
  moreover from this(4) [of 1 3] have "less_value (Inr m) (qubo_energy Q (two_hot 5 1 3))"
    by simp
  ultimately show ?thesis
    by auto
qed

theorem penalty_dominates_counterexample:
  "sum_list [- 3, - 3] < (1 :: rat) \<and>
   compile_Qubo 2 [- 3, - 3] 1 = Inr (Qubo (cost_function 2 (subs (cost_dict [- 3, - 3])) (num 1)) 2) \<and>
   min_feasible (Qubo (cost_function 2 (subs (cost_dict [- 3, - 3])) (num 1)) 2) 2 (- 4) \<and>
   qubo_energy (Qubo (cost_function 2 (subs (cost_dict [- 3, - 3])) (num 1)) 2) (two_hot 2 0 1) = Inr (- 6) \<and>
   \<not> less_value (Inr (- 4))
       (qubo_energy (Qubo (cost_function 2 (subs (cost_dict [- 3, - 3])) (num 1)) 2) (two_hot 2 0 1))"
proof -
  have "min_feasible (Qubo (cost_function 2 (subs (cost_dict [- 3, - 3])) (num 1)) 2) 2
      (Min (set [- 3, - 3]) - 1)"
    by (rule min_feasible_closed) simp_all
  then show ?thesis
    by (simp add: compile_Qubo_eq Qubo_energy energy_two_hot)
qed

text \<open>
  Claim C7. For every \<open>N \<ge> 1\<close> and every cost vector of length \<open>N\<close>, the dictionary \<open>Qubo\<close>
  has \<open>N + N (N - 1) / 2\<close> items, no key twice, and its keys are exactly the pairs \<open>(i, j)\<close>
  with \<open>i \<le> j < N\<close>: no diagonal or cross coefficient is left out, whatever its value.
\<close>

theorem Qubo_entries:
  assumes "1 \<le> N" "length C = N"
  shows "\<exists>Q. compile_Qubo N C P = Inr Q \<and> length Q = N + N * (N - 1) div 2 \<and>
    distinct (map fst Q) \<and> set (map fst Q) = {(i, j). i \<le> j \<and> j < N}"
proof -
  let ?Q = "concat (map (\<lambda>i. map (\<lambda>j. ((i, j), Number (if i = j then C ! i - P else 2 * P)))
    [i..<N]) [0..<N])"
  have "compile_Qubo N C P = Inr ?Q"
    using assms by (simp add: compile_Qubo_closed_form closed_form_entries)
  moreover have "length ?Q = N + N * (N - 1) div 2"
    by (rule triangle_length)
  moreover have "distinct (map fst ?Q)"
    by (simp only: triangle_keys distinct_triangle)
  moreover have "set (map fst ?Q) = {(i, j). i \<le> j \<and> j < N}"
    by (simp only: triangle_keys set_triangle_keys)
  ultimately show ?thesis
    by blast
qed

theorem Qubo_entries_witness:
  "(1::nat) \<le> 5 \<and> length [4, 3, 7, 2, 9 :: rat] = 5 \<and>
   (\<exists>Q. compile_Qubo 5 [4, 3, 7, 2, 9] 50 = Inr Q \<and> length Q = 15 \<and>
     distinct (map fst Q) \<and> set (map fst Q) = {(i, j). i \<le> j \<and> j < 5})"
  using Qubo_entries [of 5 "[4, 3, 7, 2, 9]" 50] by simp

text \<open>
  Claim C8, as the notebook has it. Cell 6 compares no lengths: for every \<open>N \<ge> 1\<close> it
  succeeds for a cost vector of any length and never ends with \<open>DimensionMismatch\<close>. The
  claim as stated fails for the cost vectors \<open>[4, 3, 7, 2, 9, 1]\<close> and \<open>[4, 3, 7, 2]\<close> with
  \<open>N = 5\<close>.
\<close>

theorem cost_poly_no_length_check:
  assumes "1 \<le> N"
  shows "(\<exists>p. cost_poly N C P = Inr p) \<and> cost_poly N C P \<noteq> Inl DimensionMismatch"
  using assms by (simp add: cost_poly_def Poly_def)

theorem cost_poly_no_length_check_witness:
  "(1::nat) \<le> 5 \<and> length [4, 3, 7, 2, 9, 1 :: rat] \<noteq> 5 \<and>
   (\<exists>p. cost_poly 5 [4, 3, 7, 2, 9, 1] 50 = Inr p) \<and>
   cost_poly 5 [4, 3, 7, 2, 9, 1] 50 \<noteq> Inl DimensionMismatch"
  using cost_poly_no_length_check [of 5 "[4, 3, 7, 2, 9, 1]" 50] by simp

theorem DimensionMismatch_counterexample:
  "length [4, 3, 7, 2, 9, 1 :: rat] \<noteq> 5 \<and>
   cost_poly 5 [4, 3, 7, 2, 9, 1] 50 =
     Inr (cost_function 5 (subs (cost_dict [4, 3, 7, 2, 9, 1])) (num 50)) \<and>
   length [4, 3, 7, 2 :: rat] \<noteq> 5 \<and>
   cost_poly 5 [4, 3, 7, 2] 50 = Inr (cost_function 5 (subs (cost_dict [4, 3, 7, 2])) (num 50))"
  by (simp add: cost_poly_def Poly_def)

text \<open>
  Claim C9. For every \<open>N \<ge> 1\<close>, every cost vector of length \<open>N\<close>, every penalty \<open>P\<close> and
  every assignment \<open>x\<close> of zeros and ones to the \<open>N\<close> variables, the value of the cost
  polynomial of cell 6 at \<open>x\<close> is the objective of the dictionary \<open>Qubo\<close> at \<open>x\<close> plus \<open>P\<close>.
\<close>

theorem polynomial_is_energy_plus_penalty:
  assumes "1 \<le> N" "length C = N" "length x = N" "binary x"
  shows "\<exists>p Q v. cost_poly N C P = Inr p \<and> compile_Qubo N C P = Inr Q \<and>
    qubo_energy Q x = Inr v \<and> poly_value p x = Inr (Number (v + P))"
proof -
  let ?p = "cost_function N (subs (cost_dict C)) (num P)"
  let ?s = "sum_list (map (\<lambda>i. x ! i) [0..<N])"
  have "cost_poly N C P = Inr ?p"
    using assms by (simp add: cost_poly_def Poly_def)
  moreover have "compile_Qubo N C P = Inr (Qubo ?p N)"
    using assms by (simp add: compile_Qubo_eq)
  moreover have "qubo_energy (Qubo ?p N) x = Inr (energy_sum (closed_form N C P) x)"
    using assms by (simp add: Qubo_energy)
  moreover have "poly_value ?p x = Inr (Number (ev ?p x))"
    using assms by (intro poly_value_numeric) (simp_all add: numeric_cost_function in_range_cost_function)
  moreover have "ev ?p x = energy_sum (closed_form N C P) x + P"
    using assms by (simp add: ev_cost_function energy_binary algebra_simps)
  ultimately show ?thesis
    by simp
qed

theorem polynomial_is_energy_plus_penalty_witness:
  "(1::nat) \<le> 5 \<and> length [4, 3, 7, 2, 9 :: rat] = 5 \<and> length [0, 1, 0, 1, 0 :: rat] = 5 \<and>
   binary [0, 1, 0, 1, 0] \<and>
   (\<exists>p Q. cost_poly 5 [4, 3, 7, 2, 9] 50 = Inr p \<and> compile_Qubo 5 [4, 3, 7, 2, 9] 50 = Inr Q \<and>
     qubo_energy Q [0, 1, 0, 1, 0] = Inr 5 \<and> poly_value p [0, 1, 0, 1, 0] = Inr (Number 55))"
proof -
  have bin: "binary [0, 1, 0, 1, 0]"
    by (simp add: binary_def)
  obtain p Q v where *: "cost_poly 5 [4, 3, 7, 2, 9] 50 = Inr p"
    "compile_Qubo 5 [4, 3, 7, 2, 9] 50 = Inr Q"
    "qubo_energy Q [0, 1, 0, 1, 0] = Inr v" "poly_value p [0, 1, 0, 1, 0] = Inr (Number (v + 50))"
    using polynomial_is_energy_plus_penalty [of 5 "[4, 3, 7, 2, 9]" "[0, 1, 0, 1, 0]" 50] bin
    by auto
  have "Q = Qubo (cost_function 5 (subs (cost_dict [4, 3, 7, 2, 9])) (num 50)) 5"
    using *(2) by (simp add: compile_Qubo_eq)
  then have "qubo_energy Q [0, 1, 0, 1, 0] = Inr 5"
    by (simp add: Qubo_energy instance_energy [OF bin])
  with * bin show ?thesis
    by auto
qed




end
